theory Spec2Isabelle
  imports Main
begin

unbundle bit_operations_syntax

section \<open>Shared data\<close>

text \<open>
  Octet strings (Python \<open>bytes\<close>) and text strings are both lists of 8-bit characters.
  Python truthiness is written out where the source relies on it: \<open>None\<close> and the empty
  octet string are both falsy.
\<close>

type_synonym bytes = "char list"

definition truthy :: "'a list option \<Rightarrow> bool" where
  "truthy x = (case x of None \<Rightarrow> False | Some v \<Rightarrow> v \<noteq> [])"

text \<open>
  Every \<open>raise\<close> of the sources and every failure of a collaborator is a value.
  \<open>NoCommonMechanism\<close> is \<open>Exception("Cannot negotiate a common mech")\<close>,
  \<open>NegotiationRejected\<close> is \<open>Exception("Received SPNEGO rejection")\<close>,
  \<open>UnknownProtocol\<close> is the \<open>ValueError\<close> of \<open>_new_context\<close> (it carries the protocol as
  given), \<open>AttributeError\<close> is an attribute read on \<open>None\<close> or a \<open>getattr\<close> of a missing
  member, \<open>IndexError\<close> a read of \<open>xs[0]\<close> on an empty list, \<open>TypeError\<close> a call with more
  positional arguments than the callee takes, and \<open>External\<close> is whatever a backend or the
  wire codec raises.
\<close>

datatype error =
    NoCommonMechanism
  | NegotiationRejected
  | UnknownProtocol string
  | AttributeError
  | IndexError
  | TypeError
  | External string

section \<open>The context factory (auth.py)\<close>

text \<open>
  Python lower-cases a string by the Unicode rules (the Kelvin sign, for one, becomes the
  letter k), which a list of octets does not carry. So \<open>str.lower\<close> is a parameter of
  \<open>_new_context\<close> below, and every statement about it holds for whatever function that is.
  \<open>lower_ascii\<close> is what \<open>str.lower()\<close> returns on a string of ASCII characters (the letters
  A to Z become a to z, every other ASCII character stays); it stands for \<open>str.lower\<close> only
  where the concrete strings evaluated are ASCII.
\<close>

definition lower_char :: "char \<Rightarrow> char" where
  "lower_char c =
     (let n = (of_char c :: nat)
      in if 65 \<le> n \<and> n \<le> 90 then char_of (n + 32) else c)"

definition lower_ascii :: "string \<Rightarrow> string" where
  "lower_ascii s = map lower_char s"

text \<open>
  The \<open>NegotiateOptions\<close> flag values are declared in \<open>spnego._context\<close>, which is not
  among the sources; they are taken as a parameter.
\<close>

record negotiate_options =
  use_sspi :: int
  use_gssapi :: int
  use_negotiate :: int
  use_ntlm :: int

text \<open>
  What the platform providers advertise: \<open>SSPIProxy.available_protocols\<close> and
  \<open>GSSAPIProxy.available_protocols\<close>, as functions of \<open>context_req\<close> (which may be
  \<open>None\<close>).
\<close>

record platform =
  sspi_available_protocols :: "int option \<Rightarrow> string list"
  gssapi_available_protocols :: "int option \<Rightarrow> string list"

datatype proxy = SSPIProxy | GSSAPIProxy | NegotiateProxy | NTLMProxy

text \<open>
  \<open>_new_context\<close>. Its last line calls the chosen class with nine positional arguments,
  \<open>proxy(username, ..., context_req, usage, proto, options)\<close>. For \<open>SSPIProxy\<close>,
  \<open>GSSAPIProxy\<close> and \<open>NTLMProxy\<close>, whose constructors are not among the sources, the result
  is that constructor call: the class and the lower-cased protocol passed to it.
  \<open>NegotiateProxy.__init__\<close> takes eight arguments besides \<open>self\<close>, so for it the call
  raises a \<open>TypeError\<close>.
\<close>

definition new_context ::
  "(string \<Rightarrow> string) \<Rightarrow> negotiate_options \<Rightarrow> platform \<Rightarrow> int option \<Rightarrow> string \<Rightarrow> int
     \<Rightarrow> error + (proxy \<times> string)" where
  "new_context str_lower NegotiateOptions pf context_req protocol options =
     (let proto = str_lower protocol;
          use_flags = use_sspi NegotiateOptions OR use_gssapi NegotiateOptions
                      OR use_negotiate NegotiateOptions OR use_ntlm NegotiateOptions;
          use_specified = (options AND use_flags \<noteq> 0)
      in if options AND use_sspi NegotiateOptions \<noteq> 0
            \<or> (\<not> use_specified \<and> proto \<in> set (sspi_available_protocols pf context_req))
         then Inr (SSPIProxy, proto)
         else if options AND use_gssapi NegotiateOptions \<noteq> 0
            \<or> (\<not> use_specified
                \<and> (proto = ''kerberos'' \<or> proto \<in> set (gssapi_available_protocols pf context_req)))
         then Inr (GSSAPIProxy, proto)
         else if options AND use_negotiate NegotiateOptions \<noteq> 0
            \<or> (\<not> use_specified \<and> proto = ''negotiate'')
         then Inl TypeError
         else if options AND use_ntlm NegotiateOptions \<noteq> 0
            \<or> (\<not> use_specified \<and> proto = ''ntlm'')
         then Inr (NTLMProxy, proto)
         else Inl (UnknownProtocol protocol))"

definition example_options :: negotiate_options where
  "example_options = \<lparr>use_sspi = 1, use_gssapi = 2, use_negotiate = 4, use_ntlm = 8\<rparr>"

definition bare_platform :: platform where
  "bare_platform = \<lparr>sspi_available_protocols = (\<lambda>_. []), gssapi_available_protocols = (\<lambda>_. [])\<rparr>"

section \<open>The mechanism catalog and the wire messages\<close>

text \<open>
  Modelled from the spec: the \<open>GSSMech\<close> enumeration (\<open>spnego._context\<close>) is not among
  the sources. The spec names three mechanisms with their OIDs (Kerberos v5, the legacy
  Kerberos v5 OID, NTLM) and a helper that tells whether an OID is any Kerberos flavour.
  \<open>mech_name\<close> is the member's \<open>.name\<close>, \<open>mech_value\<close> its \<open>.value\<close>, \<open>from_oid\<close> is
  \<open>GSSMech.from_oid\<close> (\<open>None\<close> for its \<open>ValueError\<close>) and \<open>getattr_GSSMech\<close> is
  \<open>getattr(GSSMech, p)\<close> (\<open>None\<close> for its \<open>AttributeError\<close>). The spec does not give the
  member name of the legacy OID; any name that is not a protocol name behaves alike.
\<close>

datatype GSSMech = ntlm | kerberos | ms_kerberos

fun mech_name :: "GSSMech \<Rightarrow> string" where
  "mech_name ntlm = ''ntlm''"
| "mech_name kerberos = ''kerberos''"
| "mech_name ms_kerberos = ''_ms_kerberos''"

fun mech_value :: "GSSMech \<Rightarrow> string" where
  "mech_value ntlm = ''1.3.6.1.4.1.311.2.2.10''"
| "mech_value kerberos = ''1.2.840.113554.1.2.2''"
| "mech_value ms_kerberos = ''1.2.840.48018.1.2.2''"

definition from_oid :: "string \<Rightarrow> GSSMech option" where
  "from_oid oid =
     (if oid = mech_value ntlm then Some ntlm
      else if oid = mech_value kerberos then Some kerberos
      else if oid = mech_value ms_kerberos then Some ms_kerberos
      else None)"

fun is_kerberos_oid :: "GSSMech \<Rightarrow> bool" where
  "is_kerberos_oid ntlm = False"
| "is_kerberos_oid kerberos = True"
| "is_kerberos_oid ms_kerberos = True"

definition getattr_GSSMech :: "string \<Rightarrow> GSSMech option" where
  "getattr_GSSMech p =
     (if p = mech_name ntlm then Some ntlm
      else if p = mech_name kerberos then Some kerberos
      else if p = mech_name ms_kerberos then Some ms_kerberos
      else None)"

text \<open>
  The decoded SPNEGO messages, with the fields negotiate.py reads. A \<open>NegTokenInit\<close> and a
  \<open>NegTokenInit2\<close> carry \<open>mech_types\<close>, \<open>mech_token\<close>, \<open>mech_list_mic\<close>; a \<open>NegTokenResp\<close>
  carries \<open>neg_state\<close>, \<open>supported_mech\<close>, \<open>response_token\<close>, \<open>mech_list_mic\<close>.
\<close>

datatype NegState = accept_complete | accept_incomplete | reject | request_mic

datatype neg_token =
    NegTokenInit "string list" "bytes option" "bytes option"
  | NegTokenInit2 "string list" "bytes option" "bytes option"
  | NegTokenResp NegState "string option" "bytes option" "bytes option"

text \<open>
  The encoders of \<open>spnego._spnego\<close> are not among the sources, so an output token is kept
  as the encoder call that produces it: \<open>pack_neg_token_init(mech_list, mech_token,
  mech_list_mic)\<close>, the same for \<open>pack_neg_token_init2\<close>, and
  \<open>pack_neg_token_resp(neg_state, response_token, supported_mech, mech_list_mic)\<close>.
\<close>

datatype packed =
    pack_neg_token_init "string list" "bytes option" "bytes option"
  | pack_neg_token_init2 "string list" "bytes option" "bytes option"
  | pack_neg_token_resp NegState "bytes option" "string option" "bytes option"

section \<open>Sub-contexts\<close>

text \<open>
  A backend context is an object of \<open>GSSAPIProxy\<close> (built with \<open>protocol=mech.name\<close>) or of
  \<open>NTLMProxy\<close>; neither class is among the sources. Such an object is modelled by how it
  was built and by the calls made on it so far, in order; what a call returns or raises is
  a function of that history, supplied by the collaborators record below. Every call is
  recorded, whether it returns or raises.
\<close>

datatype backend = GSSAPI string | NTLM

datatype call =
    Step "bytes option"
  | Verify bytes bytes
  | Sign bytes
  | ResetCrypto bool

record sub_context =
  made_by :: backend
  calls :: "call list"

text \<open>
  The collaborators: the platform providers' advertisements, the backends (a message is the
  exception raised), and the wire codec. \<open>construct\<close> is the constructor call (\<open>Some msg\<close>
  when it raises), \<open>reset_result\<close> is \<open>_reset_ntlm_crypto_state(outgoing)\<close>.
\<close>

record collaborators = platform +
  construct :: "backend \<Rightarrow> string option"
  step_result :: "sub_context \<Rightarrow> bytes option \<Rightarrow> string + bytes option"
  context_complete :: "sub_context \<Rightarrow> bool"
  requires_mech_list_mic :: "sub_context \<Rightarrow> bool"
  verify_result :: "sub_context \<Rightarrow> bytes \<Rightarrow> bytes \<Rightarrow> string option"
  sign_result :: "sub_context \<Rightarrow> bytes \<Rightarrow> string + bytes"
  reset_result :: "sub_context \<Rightarrow> bool \<Rightarrow> string option"
  unpack_neg_token :: "bytes \<Rightarrow> string + neg_token"
  pack_mech_type_list :: "string list \<Rightarrow> bytes"

definition raised :: "string + 'a \<Rightarrow> error + 'a" where
  "raised r = (case r of Inl msg \<Rightarrow> Inl (External msg) | Inr v \<Rightarrow> Inr v)"

definition raised_opt :: "string option \<Rightarrow> error + unit" where
  "raised_opt r = (case r of Some msg \<Rightarrow> Inl (External msg) | None \<Rightarrow> Inr ())"

definition ctx_step ::
  "collaborators \<Rightarrow> sub_context \<Rightarrow> bytes option \<Rightarrow> (error + bytes option) \<times> sub_context" where
  "ctx_step env c in_token =
     (raised (step_result env c in_token), c\<lparr>calls := calls c @ [Step in_token]\<rparr>)"

definition ctx_verify ::
  "collaborators \<Rightarrow> sub_context \<Rightarrow> bytes \<Rightarrow> bytes \<Rightarrow> (error + unit) \<times> sub_context" where
  "ctx_verify env c data mic =
     (raised_opt (verify_result env c data mic), c\<lparr>calls := calls c @ [Verify data mic]\<rparr>)"

definition ctx_sign ::
  "collaborators \<Rightarrow> sub_context \<Rightarrow> bytes \<Rightarrow> (error + bytes) \<times> sub_context" where
  "ctx_sign env c data =
     (raised (sign_result env c data), c\<lparr>calls := calls c @ [Sign data]\<rparr>)"

definition ctx_reset_ntlm_crypto_state ::
  "collaborators \<Rightarrow> sub_context \<Rightarrow> bool \<Rightarrow> (error + unit) \<times> sub_context" where
  "ctx_reset_ntlm_crypto_state env c outgoing =
     (raised_opt (reset_result env c outgoing), c\<lparr>calls := calls c @ [ResetCrypto outgoing]\<rparr>)"

text \<open>
  Building a backend and taking its first token, as the loop of \<open>_rebuild_context_list\<close>
  does in both of its branches: the constructor, then \<open>context.step(in_token=in_token)\<close>.
\<close>

definition create_context ::
  "collaborators \<Rightarrow> backend \<Rightarrow> bytes option \<Rightarrow> error + (sub_context \<times> bytes option)" where
  "create_context env b in_token =
     (case construct env b of
        Some msg \<Rightarrow> Inl (External msg)
      | None \<Rightarrow>
          (case ctx_step env \<lparr>made_by = b, calls = []\<rparr> in_token of
             (Inl e, c) \<Rightarrow> Inl e
           | (Inr first_token, c) \<Rightarrow> Inr (c, first_token)))"

section \<open>The SPNEGO state machine (negotiate.py)\<close>

text \<open>
  The fields of a \<open>NegotiateProxy\<close>. \<open>usage\<close>, \<open>context_req\<close> and \<open>mech\<close> (the attribute
  \<open>self._mech\<close>) are read by negotiate.py and never assigned there; the others are the
  underscore attributes set in \<open>__init__\<close>. An exception leaves the object as it was
  mutated up to the \<open>raise\<close>, so every operation returns the state together with its
  result.
\<close>

record negotiate_proxy =
  usage :: string
  context_req :: "int option"
  mech :: "string option"
  complete :: bool
  context_list :: "(GSSMech \<times> sub_context \<times> bytes option) list"
  mech_list :: "string list"
  init_sent :: bool
  mech_sent :: bool
  mic_sent :: bool
  mic_recv :: bool
  mic_required :: bool

definition init :: "string \<Rightarrow> int option \<Rightarrow> string option \<Rightarrow> negotiate_proxy" where
  "init usage_arg context_req_arg mech_arg =
     \<lparr>usage = usage_arg, context_req = context_req_arg, mech = mech_arg,
      complete = False, context_list = [], mech_list = [],
      init_sent = False, mech_sent = False, mic_sent = False, mic_recv = False,
      mic_required = False\<rparr>"


text \<open>The property \<open>_context\<close>: the backend of the first candidate, \<open>None\<close> on an empty list.\<close>

definition the_context :: "negotiate_proxy \<Rightarrow> sub_context option" where
  "the_context s = (case context_list s of [] \<Rightarrow> None | (m, c, t) # rest \<Rightarrow> Some c)"

text \<open>
  A method call on \<open>self._context\<close>: an \<open>AttributeError\<close> when there is no candidate,
  otherwise the call, with the first candidate's backend replaced by its state after it.
\<close>

definition on_context ::
  "negotiate_proxy \<Rightarrow> (sub_context \<Rightarrow> (error + 'r) \<times> sub_context) \<Rightarrow> (error + 'r) \<times> negotiate_proxy" where
  "on_context s f =
     (case context_list s of
        [] \<Rightarrow> (Inl AttributeError, s)
      | (m, c, t) # rest \<Rightarrow>
          (case f c of (r, c') \<Rightarrow> (r, s\<lparr>context_list := (m, c', t) # rest\<rparr>)))"

definition verify ::
  "collaborators \<Rightarrow> negotiate_proxy \<Rightarrow> bytes \<Rightarrow> bytes \<Rightarrow> (error + unit) \<times> negotiate_proxy" where
  "verify env s data mic = on_context s (\<lambda>c. ctx_verify env c data mic)"

definition sign ::
  "collaborators \<Rightarrow> negotiate_proxy \<Rightarrow> bytes \<Rightarrow> (error + bytes) \<times> negotiate_proxy" where
  "sign env s data = on_context s (\<lambda>c. ctx_sign env c data)"

definition reset_ntlm_crypto_state ::
  "collaborators \<Rightarrow> negotiate_proxy \<Rightarrow> bool \<Rightarrow> (error + unit) \<times> negotiate_proxy" where
  "reset_ntlm_crypto_state env s outgoing =
     on_context s (\<lambda>c. ctx_reset_ntlm_crypto_state env c outgoing)"

subsection \<open>Building the candidate list\<close>

definition gssapi_protocols :: "collaborators \<Rightarrow> negotiate_proxy \<Rightarrow> string list" where
  "gssapi_protocols env s =
     filter (\<lambda>p. p \<noteq> ''negotiate'') (gssapi_available_protocols env (context_req s))"

definition available_mechs :: "collaborators \<Rightarrow> negotiate_proxy \<Rightarrow> error + GSSMech list" where
  "available_mechs env s =
     (case those (map getattr_GSSMech (gssapi_protocols env s)) of
        None \<Rightarrow> Inl AttributeError
      | Some ms \<Rightarrow> Inr (ms @ [ntlm]))"

text \<open>The loop over a given \<open>mech_list\<close>: unknown OIDs are passed over.\<close>

fun choose_mechs :: "GSSMech list \<Rightarrow> string list \<Rightarrow> GSSMech list" where
  "choose_mechs av [] = []"
| "choose_mechs av (oid # rest) =
     (case from_oid oid of
        None \<Rightarrow> choose_mechs av rest
      | Some gss_mech \<Rightarrow>
          if gss_mech \<in> set av \<or> (kerberos \<in> set av \<and> is_kerberos_oid gss_mech)
          then gss_mech # choose_mechs av rest
          else choose_mechs av rest)"

text \<open>
  The loop over \<open>chosen_mechs\<close>. \<open>gp\<close> is \<open>gssapi_protocols\<close>, \<open>ml\<close> the local \<open>mech_list\<close>.
  Only the GSSAPI branch stands in a \<open>try\<close>: there an exception means \<open>continue\<close>; an
  exception of the NTLM branch leaves the function.
\<close>

fun build_contexts ::
  "collaborators \<Rightarrow> string list \<Rightarrow> bool \<Rightarrow> bytes option \<Rightarrow> GSSMech list \<Rightarrow> string list
     \<Rightarrow> negotiate_proxy \<Rightarrow> (error + string list) \<times> negotiate_proxy" where
  "build_contexts env gp one_required in_token [] ml s = (Inr ml, s)"
| "build_contexts env gp one_required in_token (m # rest) ml s =
     (if mech_name m \<in> set gp
      then (case create_context env (GSSAPI (mech_name m)) in_token of
              Inl e \<Rightarrow> build_contexts env gp one_required in_token rest ml s
            | Inr (c, first_token) \<Rightarrow>
                (let s' = s\<lparr>context_list := context_list s @ [(m, c, first_token)]\<rparr>
                 in if one_required then (Inr ml, s')
                    else build_contexts env gp one_required in_token rest (ml @ [mech_value m]) s'))
      else (case create_context env NTLM in_token of
              Inl e \<Rightarrow> (Inl e, s)
            | Inr (c, first_token) \<Rightarrow>
                (let s' = s\<lparr>context_list := context_list s @ [(m, c, first_token)]\<rparr>
                 in if one_required then (Inr ml, s')
                    else build_contexts env gp one_required in_token rest (ml @ [mech_value m]) s')))"

text \<open>
  \<open>chosen_mechs\<close> for a call: with a non-empty \<open>mech_list\<close> the offered mechanisms that are
  available, otherwise all available ones.
\<close>

definition chosen_mechs :: "GSSMech list \<Rightarrow> string list option \<Rightarrow> GSSMech list" where
  "chosen_mechs av mech_list_arg =
     (if truthy mech_list_arg then choose_mechs av (the mech_list_arg) else av)"

definition rebuild_context_list ::
  "collaborators \<Rightarrow> negotiate_proxy \<Rightarrow> string list option \<Rightarrow> bytes option
     \<Rightarrow> (error + string list) \<times> negotiate_proxy" where
  "rebuild_context_list env s mech_list_arg in_token =
     (case available_mechs env s of
        Inl e \<Rightarrow> (Inl e, s)
      | Inr av \<Rightarrow>
          if chosen_mechs av mech_list_arg = [] then (Inl NoCommonMechanism, s)
          else build_contexts env (gssapi_protocols env s) (truthy mech_list_arg) in_token
                 (chosen_mechs av mech_list_arg)
                 (if truthy mech_list_arg then the mech_list_arg else []) s)"

subsection \<open>The four phases of a step\<close>

text \<open>
  \<open>_step_spnego_input\<close>. The result is the pair \<open>(token, mech_list_mic)\<close>.
\<close>

definition step_spnego_input ::
  "collaborators \<Rightarrow> negotiate_proxy \<Rightarrow> bytes option
     \<Rightarrow> (error + (bytes option \<times> bytes option)) \<times> negotiate_proxy" where
  "step_spnego_input env s in_token =
     (if truthy in_token
      then (case raised (unpack_neg_token env (the in_token)) of
              Inl e \<Rightarrow> (Inl e, s)
            | Inr (NegTokenInit mech_types mech_token mech_list_mic) \<Rightarrow>
                (case rebuild_context_list env s (Some (mech_list s)) mech_token of
                   (Inl e, s1) \<Rightarrow> (Inl e, s1)
                 | (Inr ml, s1) \<Rightarrow>
                     (Inr (mech_token, mech_list_mic), s1\<lparr>mech_list := ml, init_sent := True\<rparr>))
            | Inr (NegTokenInit2 mech_types mech_token mech_list_mic) \<Rightarrow>
                (case rebuild_context_list env s (Some (mech_list s)) mech_token of
                   (Inl e, s1) \<Rightarrow> (Inl e, s1)
                 | (Inr ml, s1) \<Rightarrow>
                     (Inr (mech_token, mech_list_mic), s1\<lparr>mech_list := ml, init_sent := True\<rparr>))
            | Inr (NegTokenResp neg_state supported_mech response_token mech_list_mic) \<Rightarrow>
                (let s1 = (if truthy supported_mech then s\<lparr>mech_sent := True\<rparr> else s)
                 in if neg_state = reject \<and> \<not> truthy response_token
                    then (Inl NegotiationRejected, s1)
                    else if neg_state = request_mic
                    then (Inr (response_token, mech_list_mic), s1\<lparr>mic_required := True\<rparr>)
                    else if neg_state = accept_complete
                    then (Inr (response_token, mech_list_mic), s1\<lparr>complete := True\<rparr>)
                    else (Inr (response_token, mech_list_mic), s1)))
      else (case rebuild_context_list env s None None of
              (Inl e, s1) \<Rightarrow> (Inl e, s1)
            | (Inr ml, s1) \<Rightarrow> (Inr (None, None), s1\<lparr>mech_list := ml\<rparr>)))"

text \<open>
  \<open>_step_spnego_token\<close>. \<open>self._context.complete\<close> on an empty candidate list is an
  attribute read on \<open>None\<close>.
\<close>

definition step_spnego_token ::
  "collaborators \<Rightarrow> negotiate_proxy \<Rightarrow> bytes option \<Rightarrow> (error + bytes option) \<times> negotiate_proxy" where
  "step_spnego_token env s in_token =
     (case context_list s of
        [] \<Rightarrow> (Inl AttributeError, s)
      | (m, c, cached) # rest \<Rightarrow>
          if \<not> context_complete env c
          then (if truthy cached
                then (Inr cached,
                      (if requires_mech_list_mic env c
                       then s\<lparr>context_list := (m, c, None) # rest, mic_required := True\<rparr>
                       else s\<lparr>context_list := (m, c, None) # rest\<rparr>))
                else (case ctx_step env c in_token of
                        (Inl e, c') \<Rightarrow> (Inl e, s\<lparr>context_list := (m, c', cached) # rest\<rparr>)
                      | (Inr out_token, c') \<Rightarrow>
                          (Inr out_token,
                           (if requires_mech_list_mic env c'
                            then s\<lparr>context_list := (m, c', cached) # rest, mic_required := True\<rparr>
                            else s\<lparr>context_list := (m, c', cached) # rest\<rparr>))))
          else (Inr None, s))"

text \<open>
  \<open>_step_spnego_mic\<close>, in its two parts: the incoming \<open>mechListMIC\<close>, then the outgoing
  one.
\<close>

definition mic_incoming ::
  "collaborators \<Rightarrow> negotiate_proxy \<Rightarrow> bytes option \<Rightarrow> (error + unit) \<times> negotiate_proxy" where
  "mic_incoming env s in_mic =
     (if truthy in_mic
      then (case verify env s (pack_mech_type_list env (mech_list s)) (the in_mic) of
              (Inl e, s1) \<Rightarrow> (Inl e, s1)
            | (Inr _, s1) \<Rightarrow>
                (case reset_ntlm_crypto_state env s1 False of
                   (Inl e, s2) \<Rightarrow> (Inl e, s2)
                 | (Inr _, s2) \<Rightarrow>
                     (let s3 = s2\<lparr>mic_required := True, mic_recv := True\<rparr>
                      in (Inr (), if mic_sent s3 then s3\<lparr>complete := True\<rparr> else s3))))
      else (Inr (), s))"

definition mic_outgoing ::
  "collaborators \<Rightarrow> negotiate_proxy \<Rightarrow> (error + bytes option) \<times> negotiate_proxy" where
  "mic_outgoing env s =
     (if mic_required s \<and> \<not> mic_sent s
      then (case sign env s (pack_mech_type_list env (mech_list s)) of
              (Inl e, s1) \<Rightarrow> (Inl e, s1)
            | (Inr out_mic, s1) \<Rightarrow>
                (case reset_ntlm_crypto_state env s1 True of
                   (Inl e, s2) \<Rightarrow> (Inl e, s2)
                 | (Inr _, s2) \<Rightarrow> (Inr (Some out_mic), s2\<lparr>mic_sent := True\<rparr>)))
      else (Inr None, s))"

definition step_spnego_mic ::
  "collaborators \<Rightarrow> negotiate_proxy \<Rightarrow> bytes option \<Rightarrow> (error + bytes option) \<times> negotiate_proxy" where
  "step_spnego_mic env s in_mic =
     (case mic_incoming env s in_mic of
        (Inl e, s1) \<Rightarrow> (Inl e, s1)
      | (Inr _, s1) \<Rightarrow> mic_outgoing env s1)"

text \<open>
  \<open>_step_spnego_output\<close>. The result is the encoder call made, or \<open>None\<close> when the function
  falls off its end.
\<close>

definition step_spnego_output ::
  "collaborators \<Rightarrow> negotiate_proxy \<Rightarrow> bytes option \<Rightarrow> bytes option
     \<Rightarrow> (error + packed option) \<times> negotiate_proxy" where
  "step_spnego_output env s out_token out_mic =
     (if \<not> init_sent s
      then (Inr (Some ((if usage s = ''initiate'' then pack_neg_token_init
                        else pack_neg_token_init2) (mech_list s) out_token out_mic)),
            s\<lparr>init_sent := True\<rparr>)
      else if \<not> complete s
      then (let supported_mech = (if \<not> mech_sent s then mech s else None);
                s1 = (if \<not> mech_sent s then s\<lparr>mech_sent := True\<rparr> else s)
            in case the_context s1 of
                 None \<Rightarrow> (Inl AttributeError, s1)
               | Some c \<Rightarrow>
                   if context_complete env c
                   then (if mic_sent s1 \<and> \<not> mic_recv s1
                         then (Inr (Some (pack_neg_token_resp request_mic out_token
                                            supported_mech out_mic)), s1)
                         else (Inr (Some (pack_neg_token_resp accept_complete out_token
                                            supported_mech out_mic)), s1\<lparr>complete := True\<rparr>))
                   else (Inr (Some (pack_neg_token_resp accept_incomplete out_token
                                      supported_mech out_mic)), s1))
      else (Inr None, s))"

subsection \<open>The step, and runs of steps\<close>

definition step ::
  "collaborators \<Rightarrow> negotiate_proxy \<Rightarrow> bytes option \<Rightarrow> (error + packed option) \<times> negotiate_proxy" where
  "step env s in_token =
     (case step_spnego_input env s in_token of
        (Inl e, s1) \<Rightarrow> (Inl e, s1)
      | (Inr (mech_token_in, mech_list_mic), s1) \<Rightarrow>
          (case step_spnego_token env s1 mech_token_in of
             (Inl e, s2) \<Rightarrow> (Inl e, s2)
           | (Inr mech_token_out, s2) \<Rightarrow>
               (case step_spnego_mic env s2 mech_list_mic of
                  (Inl e, s3) \<Rightarrow> (Inl e, s3)
                | (Inr out_mic, s3) \<Rightarrow>
                    (case step_spnego_output env s3 mech_token_out out_mic of
                       (Inl e, s4) \<Rightarrow> (Inl e, s4)
                     | (Inr out_token, s4) \<Rightarrow>
                         if complete s4
                         then (case context_list s4 of
                                 [] \<Rightarrow> (Inl IndexError, s4)
                               | first # rest \<Rightarrow> (Inr out_token, s4\<lparr>context_list := [first]\<rparr>))
                         else (Inr out_token, s4)))))"

text \<open>
  A caller's successive \<open>step\<close> calls on one proxy; the object stays in use after a call
  that raised. The results are listed in call order.
\<close>

fun run ::
  "collaborators \<Rightarrow> negotiate_proxy \<Rightarrow> bytes option list
     \<Rightarrow> (error + packed option) list \<times> negotiate_proxy" where
  "run env s [] = ([], s)"
| "run env s (in_token # later) =
     (case step env s in_token of
        (r, s1) \<Rightarrow> (case run env s1 later of (rs, s2) \<Rightarrow> (r # rs, s2)))"

section \<open>A concrete set of collaborators\<close>

text \<open>
  For evaluating the state machine on concrete inputs: a platform without SSPI or GSSAPI,
  and one backend behaviour shared by all sub-contexts. The backend's first \<open>step\<close>
  returns \<open>NEGOTIATE\<close>, every later one \<open>AUTHENTICATE\<close>; it is complete, and then asks for
  the \<open>mechListMIC\<close>, once \<open>rounds\<close> steps were made on it. The codec decodes six fixed
  octet strings and rejects everything else.
\<close>

fun is_step :: "call \<Rightarrow> bool" where
  "is_step (Step t) = True"
| "is_step (Verify d m) = False"
| "is_step (Sign d) = False"
| "is_step (ResetCrypto outgoing) = False"

definition steps_made :: "sub_context \<Rightarrow> nat" where
  "steps_made c = length (filter is_step (calls c))"

definition lab_unpack :: "bytes \<Rightarrow> string + neg_token" where
  "lab_unpack raw =
     (if raw = ''challenge''
      then Inr (NegTokenResp accept_incomplete (Some (mech_value ntlm)) (Some ''CHALLENGE'') None)
      else if raw = ''accepted'' then Inr (NegTokenResp accept_complete None None None)
      else if raw = ''rejected'' then Inr (NegTokenResp reject None None None)
      else if raw = ''rejected-empty'' then Inr (NegTokenResp reject None (Some []) None)
      else if raw = ''init''
      then Inr (NegTokenInit [mech_value ntlm] (Some ''NEGOTIATE'') None)
      else if raw = ''continue''
      then Inr (NegTokenResp accept_incomplete None (Some ''CHALLENGE'') None)
      else Inl ''invalid token'')"

definition lab :: "nat \<Rightarrow> collaborators" where
  "lab rounds =
     \<lparr>sspi_available_protocols = (\<lambda>_. []),
      gssapi_available_protocols = (\<lambda>_. []),
      construct = (\<lambda>b. None),
      step_result = (\<lambda>c t. Inr (Some (if steps_made c = 0 then ''NEGOTIATE'' else ''AUTHENTICATE''))),
      context_complete = (\<lambda>c. rounds \<le> steps_made c),
      requires_mech_list_mic = (\<lambda>c. rounds \<le> steps_made c),
      verify_result = (\<lambda>c d m. if m = ''MIC:'' @ d then None else Some ''bad signature''),
      sign_result = (\<lambda>c d. Inr (''MIC:'' @ d)),
      reset_result = (\<lambda>c outgoing. None),
      unpack_neg_token = lab_unpack,
      pack_mech_type_list = concat\<rparr>"




text \<open>A backend whose first \<open>step\<close> returns the empty octet string.\<close>

definition lab_empty_first_token :: collaborators where
  "lab_empty_first_token =
     (lab 2)\<lparr>step_result := (\<lambda>c t. Inr (Some (if steps_made c = 0 then [] else ''AUTHENTICATE'')))\<rparr>"

text \<open>An initiator over \<open>lab 2\<close> after its first \<open>step\<close>, which sent the \<open>NegTokenInit\<close>.\<close>

definition offered :: negotiate_proxy where
  "offered = snd (step (lab 2) (init ''initiate'' None None) None)"

text \<open>
  An initiator over \<open>lab 3\<close> whose offer was answered by a bare \<open>accept_completed\<close>: the
  state after the two \<open>step\<close> calls.
\<close>

definition accepted_early :: negotiate_proxy where
  "accepted_early = snd (run (lab 3) (init ''initiate'' None None) [None, Some ''accepted''])"

text \<open>
  An acceptor over \<open>lab 3\<close> whose \<open>_mech\<close> is the NTLM OID, after it answered the
  initiator's \<open>NegTokenInit\<close>.
\<close>

definition answered :: negotiate_proxy where
  "answered = snd (step (lab 3) (init ''accept'' None (Some (mech_value ntlm))) (Some ''init''))"

text \<open>
  Whether a \<open>step\<close> returned a \<open>NegTokenResp\<close> whose \<open>supported_mech\<close> field is set.
\<close>

fun carries_supported_mech :: "error + packed option \<Rightarrow> bool" where
  "carries_supported_mech (Inr (Some (pack_neg_token_resp neg_state response_token (Some m) mic))) = True"
| "carries_supported_mech r = False"

text \<open>The calls made so far on the active backend (none when there is no candidate).\<close>

definition active_calls :: "negotiate_proxy \<Rightarrow> call list" where
  "active_calls s = (case the_context s of None \<Rightarrow> [] | Some c \<Rightarrow> calls c)"

section \<open>The context factory: unknown protocols\<close>

lemma use_flags_clear:
  fixes x a b c d :: int
  assumes "x AND (a OR b OR c OR d) = 0"
  shows "x AND a = 0 \<and> x AND b = 0 \<and> x AND c = 0 \<and> x AND d = 0"
  using assms by (auto simp: bit_eq_iff bit_and_iff bit_or_iff)

text \<open>
  C9, as the source has it. \<open>_new_context\<close> compares the lower-cased protocol: when that
  lower-cased string is none of kerberos, negotiate, ntlm, no \<open>use_*\<close> bit is set in the
  options and neither platform provider advertises it, the call raises the
  \<open>ValueError\<close> for an unknown protocol and no proxy is built. This holds whatever
  function \<open>str.lower\<close> is.
\<close>

theorem new_context_unknown_protocol:
  assumes "str_lower protocol \<notin> {''kerberos'', ''negotiate'', ''ntlm''}"
    and "options AND (use_sspi NO OR use_gssapi NO OR use_negotiate NO OR use_ntlm NO) = 0"
    and "str_lower protocol \<notin> set (sspi_available_protocols pf creq)"
    and "str_lower protocol \<notin> set (gssapi_available_protocols pf creq)"
  shows "new_context str_lower NO pf creq protocol options = Inl (UnknownProtocol protocol)"
proof -
  from use_flags_clear [OF assms(2)]
  have "options AND use_sspi NO = 0" "options AND use_gssapi NO = 0"
       "options AND use_negotiate NO = 0" "options AND use_ntlm NO = 0"
    by simp_all
  with assms show ?thesis
    by (simp add: new_context_def Let_def)
qed

theorem new_context_unknown_protocol_witness:
  "lower_ascii ''CredSSP'' \<notin> {''kerberos'', ''negotiate'', ''ntlm''}
   \<and> (16::int) AND (use_sspi example_options OR use_gssapi example_options
             OR use_negotiate example_options OR use_ntlm example_options) = 0
   \<and> new_context lower_ascii example_options bare_platform None ''CredSSP'' 16
       = Inl (UnknownProtocol ''CredSSP'')"
proof -
  have l: "lower_ascii ''CredSSP'' = ''credssp''" by code_simp
  have b: "(16::int) AND (use_sspi example_options OR use_gssapi example_options
             OR use_negotiate example_options OR use_ntlm example_options) = 0"
    by code_simp
  show ?thesis
    using new_context_unknown_protocol
            [of lower_ascii "''CredSSP''" 16 example_options bare_platform None] l b
    by (simp add: bare_platform_def)
qed

text \<open>
  C9 as stated fails: the protocol string \<open>NTLM\<close> (all ASCII, lower-cased by Python to
  \<open>ntlm\<close>) is not one of the three lower-case names, no \<open>use_*\<close> bit is set and no provider
  advertises it, yet the builtin NTLM proxy is selected.
\<close>

theorem new_context_uppercase_counterexample:
  "''NTLM'' \<notin> {''kerberos'', ''negotiate'', ''ntlm''}
   \<and> lower_ascii ''NTLM'' = ''ntlm''
   \<and> (0::int) AND (use_sspi example_options OR use_gssapi example_options
             OR use_negotiate example_options OR use_ntlm example_options) = 0
   \<and> ''NTLM'' \<notin> set (sspi_available_protocols bare_platform None)
   \<and> ''NTLM'' \<notin> set (gssapi_available_protocols bare_platform None)
   \<and> new_context lower_ascii example_options bare_platform None ''NTLM'' 0
       = Inr (NTLMProxy, ''ntlm'')"
proof -
  have "new_context lower_ascii example_options bare_platform None ''NTLM'' 0
          = Inr (NTLMProxy, ''ntlm'')"
    "lower_ascii ''NTLM'' = ''ntlm''"
    by code_simp+
  then show ?thesis by (simp add: bare_platform_def)
qed


section \<open>NTLM on offer, and as the fallback\<close>










section \<open>Building the candidates\<close>









section \<open>Concrete states, evaluated\<close>

lemma offered_state:
  "offered = \<lparr>usage = ''initiate'', context_req = None, mech = None, complete = False,
     context_list = [(ntlm, \<lparr>made_by = NTLM, calls = [Step None]\<rparr>, None)],
     mech_list = [''1.3.6.1.4.1.311.2.2.10''], init_sent = True,
     mech_sent = False, mic_sent = False, mic_recv = False, mic_required = False\<rparr>"
  by code_simp

lemma fresh_state:
  "snd (step_spnego_input (lab 2) (init ''initiate'' None None) None)
     = \<lparr>usage = ''initiate'', context_req = None, mech = None, complete = False,
        context_list = [(ntlm, \<lparr>made_by = NTLM, calls = [Step None]\<rparr>, Some ''NEGOTIATE'')],
        mech_list = [''1.3.6.1.4.1.311.2.2.10''], init_sent = False,
        mech_sent = False, mic_sent = False, mic_recv = False, mic_required = False\<rparr>"
  by code_simp



section \<open>What building candidates and backend calls leave untouched\<close>

text \<open>
  Building candidates, and a call on the active backend, change nothing of the proxy but its
  candidate list.
\<close>

text \<open>
  Building candidates changes nothing of the proxy but its candidate list.
\<close>

lemma build_contexts_frame:
  "snd (build_contexts env gp one tok ms ml s)
     = s\<lparr>context_list := context_list (snd (build_contexts env gp one tok ms ml s))\<rparr>"
proof (induction ms arbitrary: ml s)
  case Nil
  show ?case by simp
next
  case (Cons m ms)
  show ?case
  proof (cases "mech_name m \<in> set gp")
    case True
    show ?thesis
    proof (cases "create_context env (GSSAPI (mech_name m)) tok")
      case (Inl e)
      with True Cons.IH [of ml s] show ?thesis by simp
    next
      case (Inr p)
      obtain c ft where p: "p = (c, ft)" by (cases p)
      let ?s' = "s\<lparr>context_list := context_list s @ [(m, c, ft)]\<rparr>"
      have ih: "snd (build_contexts env gp one tok ms (ml @ [mech_value m]) ?s')
         = s\<lparr>context_list := context_list (snd (build_contexts env gp one tok ms (ml @ [mech_value m]) ?s'))\<rparr>"
        using Cons.IH [of "ml @ [mech_value m]" ?s'] by simp
      show ?thesis
      proof (cases one)
        case True
        with \<open>mech_name m \<in> set gp\<close> Inr p show ?thesis by simp
      next
        case False
        with \<open>mech_name m \<in> set gp\<close> Inr p ih show ?thesis by simp
      qed
    qed
  next
    case False
    show ?thesis
    proof (cases "create_context env NTLM tok")
      case (Inl e)
      with False show ?thesis by simp
    next
      case (Inr p)
      obtain c ft where p: "p = (c, ft)" by (cases p)
      let ?s' = "s\<lparr>context_list := context_list s @ [(m, c, ft)]\<rparr>"
      have ih: "snd (build_contexts env gp one tok ms (ml @ [mech_value m]) ?s')
         = s\<lparr>context_list := context_list (snd (build_contexts env gp one tok ms (ml @ [mech_value m]) ?s'))\<rparr>"
        using Cons.IH [of "ml @ [mech_value m]" ?s'] by simp
      show ?thesis
      proof (cases one)
        case True
        with \<open>mech_name m \<notin> set gp\<close> Inr p show ?thesis by simp
      next
        case False
        with \<open>mech_name m \<notin> set gp\<close> Inr p ih show ?thesis by simp
      qed
    qed
  qed
qed

lemma rebuild_context_list_frame:
  "snd (rebuild_context_list env s arg tok)
     = s\<lparr>context_list := context_list (snd (rebuild_context_list env s arg tok))\<rparr>"
proof (cases "available_mechs env s")
  case (Inl e)
  then show ?thesis by (simp add: rebuild_context_list_def)
next
  case (Inr av)
  show ?thesis
  proof (cases "chosen_mechs av arg = []")
    case True
    with Inr show ?thesis by (simp add: rebuild_context_list_def)
  next
    case False
    with Inr show ?thesis
      using build_contexts_frame by (simp add: rebuild_context_list_def)
  qed
qed

lemma rebuild_context_list_keeps:
  assumes "rebuild_context_list env s arg tok = (r, s')"
  shows "complete s' = complete s \<and> mech_sent s' = mech_sent s \<and> mic_sent s' = mic_sent s
       \<and> mic_recv s' = mic_recv s \<and> mic_required s' = mic_required s
       \<and> init_sent s' = init_sent s \<and> mech_list s' = mech_list s
       \<and> usage s' = usage s \<and> mech s' = mech s \<and> context_req s' = context_req s"
proof -
  have "s' = s\<lparr>context_list := context_list s'\<rparr>"
    using rebuild_context_list_frame [of env s arg tok] assms by simp
  then obtain cl where "s' = s\<lparr>context_list := cl\<rparr>" ..
  then show ?thesis by simp
qed

lemma on_context_keeps:
  assumes "on_context s f = (r, s')"
  shows "complete s' = complete s \<and> mech_sent s' = mech_sent s \<and> mic_sent s' = mic_sent s
       \<and> mic_recv s' = mic_recv s \<and> mic_required s' = mic_required s
       \<and> init_sent s' = init_sent s \<and> mech_list s' = mech_list s
       \<and> usage s' = usage s \<and> mech s' = mech s \<and> context_req s' = context_req s"
proof (cases "context_list s")
  case Nil
  with assms have "s' = s" by (simp add: on_context_def)
  then show ?thesis by simp
next
  case (Cons a rest)
  obtain m c t where a: "a = (m, c, t)" by (cases a)
  obtain r' c' where f: "f c = (r', c')" by force
  from assms Cons a f have "s' = s\<lparr>context_list := (m, c', t) # rest\<rparr>"
    by (simp add: on_context_def)
  then show ?thesis by simp
qed


section \<open>The input phase\<close>

lemma input_fresh:
  assumes "\<not> truthy in_token"
  shows "step_spnego_input env s in_token =
     (case rebuild_context_list env s None None of
        (Inl e, s1) \<Rightarrow> (Inl e, s1)
      | (Inr ml, s1) \<Rightarrow> (Inr (None, None), s1\<lparr>mech_list := ml\<rparr>))"
  using assms by (simp add: step_spnego_input_def)

lemma input_invalid:
  assumes "truthy in_token" and "unpack_neg_token env (the in_token) = Inl msg"
  shows "step_spnego_input env s in_token = (Inl (External msg), s)"
  using assms by (simp add: step_spnego_input_def raised_def)

lemma input_init:
  assumes "truthy in_token"
    and "unpack_neg_token env (the in_token) = Inr (NegTokenInit mts mt mic)
         \<or> unpack_neg_token env (the in_token) = Inr (NegTokenInit2 mts mt mic)"
  shows "step_spnego_input env s in_token =
     (case rebuild_context_list env s (Some (mech_list s)) mt of
        (Inl e, s1) \<Rightarrow> (Inl e, s1)
      | (Inr ml, s1) \<Rightarrow> (Inr (mt, mic), s1\<lparr>mech_list := ml, init_sent := True\<rparr>))"
  using assms by (auto simp: step_spnego_input_def raised_def)

lemma input_resp:
  assumes "truthy in_token"
    and "unpack_neg_token env (the in_token) = Inr (NegTokenResp ns sm rt mic)"
  shows "step_spnego_input env s in_token =
     (if ns = reject \<and> \<not> truthy rt
      then (Inl NegotiationRejected, s\<lparr>mech_sent := truthy sm \<or> mech_sent s\<rparr>)
      else (Inr (rt, mic),
            s\<lparr>mech_sent := truthy sm \<or> mech_sent s,
              mic_required := ns = request_mic \<or> mic_required s,
              complete := ns = accept_complete \<or> complete s\<rparr>))"
  using assms by (cases ns) (simp_all add: step_spnego_input_def raised_def Let_def)

lemma input_effect:
  assumes "step_spnego_input env s in_token = (r, s1)"
  shows "mic_sent s1 = mic_sent s \<and> mic_recv s1 = mic_recv s
       \<and> usage s1 = usage s \<and> mech s1 = mech s
       \<and> (complete s \<longrightarrow> complete s1) \<and> (mech_sent s \<longrightarrow> mech_sent s1)
       \<and> (complete s1 \<and> \<not> complete s \<longrightarrow>
             truthy in_token \<and> (\<exists>sm rt mic. unpack_neg_token env (the in_token)
                                   = Inr (NegTokenResp accept_complete sm rt mic)))"
proof (cases "truthy in_token")
  case False
  obtain r0 s0 where rb: "rebuild_context_list env s None None = (r0, s0)" by force
  from rebuild_context_list_keeps [OF rb] input_fresh [OF False, of env s] rb assms
  show ?thesis by (cases r0) auto
next
  case True
  show ?thesis
  proof (cases "unpack_neg_token env (the in_token)")
    case (Inl msg)
    from input_invalid [OF True Inl, of s] assms show ?thesis by auto
  next
    case (Inr tok)
    show ?thesis
    proof (cases tok)
      case (NegTokenInit mts mt mic)
      obtain r0 s0 where rb: "rebuild_context_list env s (Some (mech_list s)) mt = (r0, s0)" by force
      from NegTokenInit Inr have "unpack_neg_token env (the in_token) = Inr (NegTokenInit mts mt mic)
         \<or> unpack_neg_token env (the in_token) = Inr (NegTokenInit2 mts mt mic)" by simp
      from rebuild_context_list_keeps [OF rb] input_init [OF True this, of s] rb assms
      show ?thesis by (cases r0) auto
    next
      case (NegTokenInit2 mts mt mic)
      obtain r0 s0 where rb: "rebuild_context_list env s (Some (mech_list s)) mt = (r0, s0)" by force
      from NegTokenInit2 Inr have "unpack_neg_token env (the in_token) = Inr (NegTokenInit mts mt mic)
         \<or> unpack_neg_token env (the in_token) = Inr (NegTokenInit2 mts mt mic)" by simp
      from rebuild_context_list_keeps [OF rb] input_init [OF True this, of s] rb assms
      show ?thesis by (cases r0) auto
    next
      case (NegTokenResp ns sm rt mic)
      with Inr have u: "unpack_neg_token env (the in_token) = Inr (NegTokenResp ns sm rt mic)" by simp
      from input_resp [OF True u, of s] assms True u
      show ?thesis by (auto split: if_splits)
    qed
  qed
qed


text \<open>
  C7, as the source has it. For a \<open>step\<close> whose input decodes to a \<open>NegTokenResp\<close>: when
  \<open>neg_state\<close> is \<open>reject\<close> and the \<open>response_token\<close> is absent or empty, the step raises the
  rejection; in every other case the input phase does not raise and hands on the
  \<open>response_token\<close> and the \<open>mech_list_mic\<close>.
\<close>

theorem rejection_without_token:
  assumes "truthy in_token"
    and "unpack_neg_token env (the in_token) = Inr (NegTokenResp ns sm rt mic)"
  shows "(ns = reject \<and> \<not> truthy rt \<longrightarrow> fst (step env s in_token) = Inl NegotiationRejected)
       \<and> (\<not> (ns = reject \<and> \<not> truthy rt) \<longrightarrow>
             fst (step_spnego_input env s in_token) = Inr (rt, mic))"
proof -
  note r = input_resp [OF assms, of s]
  show ?thesis
  proof (cases "ns = reject \<and> \<not> truthy rt")
    case True
    with r have "step_spnego_input env s in_token
        = (Inl NegotiationRejected, s\<lparr>mech_sent := truthy sm \<or> mech_sent s\<rparr>)"
      by simp
    then have "fst (step env s in_token) = Inl NegotiationRejected"
      by (simp add: step_def)
    with True show ?thesis by simp
  next
    case False
    with r show ?thesis by auto
  qed
qed

theorem rejection_without_token_witness:
  "fst (step (lab 2) offered (Some ''rejected'')) = Inl NegotiationRejected
   \<and> fst (step_spnego_input (lab 2) offered (Some ''challenge'')) = Inr (Some ''CHALLENGE'', None)"
proof -
  have t: "truthy (Some ''rejected'')" "truthy (Some ''challenge'')" by code_simp+
  have u1: "unpack_neg_token (lab 2) (the (Some ''rejected''))
              = Inr (NegTokenResp reject None None None)" by code_simp
  have u2: "unpack_neg_token (lab 2) (the (Some ''challenge''))
              = Inr (NegTokenResp accept_incomplete (Some (mech_value ntlm)) (Some ''CHALLENGE'') None)"
    by code_simp
  have n: "\<not> truthy (None :: bytes option)" by code_simp
  from rejection_without_token [OF t(1) u1, of offered] rejection_without_token [OF t(2) u2, of offered] n
  show ?thesis by simp
qed

text \<open>
  C7 as stated fails for a \<open>response_token\<close> that is present and empty: the step raises
  the rejection all the same.
\<close>

theorem rejection_with_empty_token_counterexample:
  "unpack_neg_token (lab 2) ''rejected-empty'' = Inr (NegTokenResp reject None (Some []) None)
   \<and> fst (step (lab 2) offered (Some ''rejected-empty'')) = Inl NegotiationRejected"
  by code_simp


section \<open>The inner-token phase\<close>

lemma token_cached:
  assumes "context_list s = (m, c, cached) # rest" and "\<not> context_complete env c"
    and "truthy cached"
  shows "step_spnego_token env s in_token =
     (Inr cached, s\<lparr>context_list := (m, c, None) # rest,
                     mic_required := requires_mech_list_mic env c \<or> mic_required s\<rparr>)"
  using assms by (simp add: step_spnego_token_def)

lemma token_stepped:
  assumes "context_list s = (m, c, cached) # rest" and "\<not> context_complete env c"
    and "\<not> truthy cached"
  shows "step_spnego_token env s in_token =
     (raised (step_result env c in_token),
      s\<lparr>context_list := (m, c\<lparr>calls := calls c @ [Step in_token]\<rparr>, cached) # rest,
        mic_required := (\<exists>t. step_result env c in_token = Inr t)
                         \<and> requires_mech_list_mic env (c\<lparr>calls := calls c @ [Step in_token]\<rparr>)
                        \<or> mic_required s\<rparr>)"
  using assms
  by (cases "step_result env c in_token") (simp_all add: step_spnego_token_def ctx_step_def raised_def)

lemma token_effect:
  assumes "step_spnego_token env s in_token = (r, s2)"
  shows "complete s2 = complete s \<and> mech_sent s2 = mech_sent s \<and> mic_sent s2 = mic_sent s
       \<and> mic_recv s2 = mic_recv s \<and> init_sent s2 = init_sent s \<and> mech_list s2 = mech_list s
       \<and> usage s2 = usage s \<and> mech s2 = mech s"
proof (cases "context_list s")
  case Nil
  with assms show ?thesis by (simp add: step_spnego_token_def)
next
  case (Cons a rest)
  obtain m c cached where a: "a = (m, c, cached)" by (cases a)
  with Cons have cl: "context_list s = (m, c, cached) # rest" by simp
  show ?thesis
  proof (cases "context_complete env c")
    case True
    with cl assms show ?thesis by (simp add: step_spnego_token_def)
  next
    case False
    show ?thesis
    proof (cases "truthy cached")
      case True
      from token_cached [OF cl False True, of in_token] assms show ?thesis by auto
    next
      case nt: False
      from token_stepped [OF cl False nt, of in_token] assms show ?thesis by auto
    qed
  qed
qed


text \<open>
  C6, as the source has it. With an active backend that is not complete: a cached first
  token that is not empty is the token emitted, the slot is cleared, and no call is made on
  the backend; when the slot holds nothing or the empty octet string, \<open>step\<close> is called on
  the backend with the incoming inner token, its result (or its exception) is the phase's
  result, and the slot is left as it was.
\<close>

theorem cached_first_token_used_once:
  assumes "context_list s = (m, c, cached) # rest" and "\<not> context_complete env c"
  shows "(truthy cached \<longrightarrow>
            fst (step_spnego_token env s in_token) = Inr cached
          \<and> context_list (snd (step_spnego_token env s in_token)) = (m, c, None) # rest)
       \<and> (\<not> truthy cached \<longrightarrow>
            fst (step_spnego_token env s in_token) = raised (step_result env c in_token)
          \<and> context_list (snd (step_spnego_token env s in_token))
              = (m, c\<lparr>calls := calls c @ [Step in_token]\<rparr>, cached) # rest)"
proof (cases "truthy cached")
  case True
  from token_cached [OF assms True, of in_token] True show ?thesis by simp
next
  case False
  from token_stepped [OF assms False, of in_token] False show ?thesis by simp
qed

theorem cached_first_token_used_once_witness:
  "fst (step_spnego_token (lab 2)
          (snd (step_spnego_input (lab 2) (init ''initiate'' None None) None)) None)
     = Inr (Some ''NEGOTIATE'')
   \<and> context_list (snd (step_spnego_token (lab 2)
          (snd (step_spnego_input (lab 2) (init ''initiate'' None None) None)) None))
     = [(ntlm, \<lparr>made_by = NTLM, calls = [Step None]\<rparr>, None)]
   \<and> fst (step_spnego_token (lab 2) offered (Some ''CHALLENGE''))
     = Inr (Some ''AUTHENTICATE'')
   \<and> context_list (snd (step_spnego_token (lab 2) offered (Some ''CHALLENGE'')))
     = [(ntlm, \<lparr>made_by = NTLM, calls = [Step None, Step (Some ''CHALLENGE'')]\<rparr>, None)]"
proof -
  let ?s = "snd (step_spnego_input (lab 2) (init ''initiate'' None None) None)"
  let ?c = "\<lparr>made_by = NTLM, calls = [Step None]\<rparr>"
  have cl: "context_list ?s = (ntlm, ?c, Some ''NEGOTIATE'') # []" by (simp add: fresh_state)
  have cl2: "context_list offered = (ntlm, ?c, None) # []" by (simp add: offered_state)
  have nc: "\<not> context_complete (lab 2) ?c" by code_simp
  have t: "truthy (Some ''NEGOTIATE'')" "\<not> truthy (None :: bytes option)" by code_simp+
  have r: "raised (step_result (lab 2) ?c (Some ''CHALLENGE'')) = Inr (Some ''AUTHENTICATE'')"
    by code_simp
  from cached_first_token_used_once [OF cl nc, of None] t
       cached_first_token_used_once [OF cl2 nc, of "Some ''CHALLENGE''"] r
  show ?thesis by simp
qed

text \<open>
  C6 as stated fails when the cached first token is the empty octet string. Over
  \<open>lab_empty_first_token\<close> the candidate built for the first \<open>step\<close> holds \<open>Some []\<close>; the
  backend is not complete, yet the token phase calls \<open>step\<close> on it again, emits that
  call's result and leaves the slot as it is.
\<close>

theorem cached_empty_token_counterexample:
  "context_list (snd (step_spnego_input lab_empty_first_token (init ''initiate'' None None) None))
     = [(ntlm, \<lparr>made_by = NTLM, calls = [Step None]\<rparr>, Some [])]
   \<and> \<not> context_complete lab_empty_first_token \<lparr>made_by = NTLM, calls = [Step None]\<rparr>
   \<and> fst (step_spnego_token lab_empty_first_token
        (snd (step_spnego_input lab_empty_first_token (init ''initiate'' None None) None)) None)
     = Inr (Some ''AUTHENTICATE'')
   \<and> context_list (snd (step_spnego_token lab_empty_first_token
        (snd (step_spnego_input lab_empty_first_token (init ''initiate'' None None) None)) None))
     = [(ntlm, \<lparr>made_by = NTLM, calls = [Step None, Step None]\<rparr>, Some [])]"
  by code_simp


section \<open>The MIC phase\<close>

lemma verify_active:
  assumes "context_list s = (m, c, t) # rest"
  shows "verify env s d mic =
     (raised_opt (verify_result env c d mic),
      s\<lparr>context_list := (m, c\<lparr>calls := calls c @ [Verify d mic]\<rparr>, t) # rest\<rparr>)"
  using assms by (simp add: verify_def on_context_def ctx_verify_def)

lemma sign_active:
  assumes "context_list s = (m, c, t) # rest"
  shows "sign env s d =
     (raised (sign_result env c d),
      s\<lparr>context_list := (m, c\<lparr>calls := calls c @ [Sign d]\<rparr>, t) # rest\<rparr>)"
  using assms by (simp add: sign_def on_context_def ctx_sign_def)

lemma reset_active:
  assumes "context_list s = (m, c, t) # rest"
  shows "reset_ntlm_crypto_state env s outgoing =
     (raised_opt (reset_result env c outgoing),
      s\<lparr>context_list := (m, c\<lparr>calls := calls c @ [ResetCrypto outgoing]\<rparr>, t) # rest\<rparr>)"
  using assms by (simp add: reset_ntlm_crypto_state_def on_context_def ctx_reset_ntlm_crypto_state_def)

lemma no_context:
  assumes "context_list s = []"
  shows "verify env s d mic = (Inl AttributeError, s)"
    and "sign env s d = (Inl AttributeError, s)"
    and "reset_ntlm_crypto_state env s outgoing = (Inl AttributeError, s)"
  using assms
  by (simp_all add: verify_def sign_def reset_ntlm_crypto_state_def on_context_def)

lemma reset_updated:
  "reset_ntlm_crypto_state env (s\<lparr>context_list := (m, c, t) # rest\<rparr>) outgoing =
     (raised_opt (reset_result env c outgoing),
      s\<lparr>context_list := (m, c\<lparr>calls := calls c @ [ResetCrypto outgoing]\<rparr>, t) # rest\<rparr>)"
  using reset_active [of "s\<lparr>context_list := (m, c, t) # rest\<rparr>" m c t rest env outgoing]
  by simp

lemma mic_incoming_skip:
  assumes "\<not> truthy in_mic"
  shows "mic_incoming env s in_mic = (Inr (), s)"
  using assms by (simp add: mic_incoming_def)

lemma mic_incoming_no_context:
  assumes "truthy in_mic" and "context_list s = []"
  shows "mic_incoming env s in_mic = (Inl AttributeError, s)"
  using assms by (simp add: mic_incoming_def no_context)

lemma mic_incoming_active:
  assumes "truthy in_mic" and "context_list s = (m, c, t) # rest"
    and "d = pack_mech_type_list env (mech_list s)"
    and "c1 = c\<lparr>calls := calls c @ [Verify d (the in_mic)]\<rparr>"
    and "c2 = c\<lparr>calls := calls c @ [Verify d (the in_mic), ResetCrypto False]\<rparr>"
  shows "mic_incoming env s in_mic =
     (case verify_result env c d (the in_mic) of
        Some msg \<Rightarrow> (Inl (External msg), s\<lparr>context_list := (m, c1, t) # rest\<rparr>)
      | None \<Rightarrow>
          (case reset_result env c1 False of
             Some msg \<Rightarrow> (Inl (External msg), s\<lparr>context_list := (m, c2, t) # rest\<rparr>)
           | None \<Rightarrow>
               (Inr (), s\<lparr>context_list := (m, c2, t) # rest, mic_required := True,
                          mic_recv := True, complete := mic_sent s \<or> complete s\<rparr>)))"
proof (cases "verify_result env c d (the in_mic)")
  case (Some msg)
  with assms show ?thesis
    by (simp add: mic_incoming_def verify_active raised_opt_def)
next
  case None
  show ?thesis
  proof (cases "reset_result env c1 False")
    case (Some msg)
    with None assms show ?thesis
      by (simp add: mic_incoming_def verify_active reset_updated raised_opt_def)
  next
    case n2: None
    with None assms show ?thesis
      by (simp add: mic_incoming_def verify_active reset_updated raised_opt_def Let_def)
  qed
qed

lemma mic_outgoing_skip:
  assumes "\<not> (mic_required s \<and> \<not> mic_sent s)"
  shows "mic_outgoing env s = (Inr None, s)"
  using assms by (auto simp: mic_outgoing_def)

lemma mic_outgoing_no_context:
  assumes "mic_required s \<and> \<not> mic_sent s" and "context_list s = []"
  shows "mic_outgoing env s = (Inl AttributeError, s)"
  using assms by (simp add: mic_outgoing_def no_context)

lemma mic_outgoing_active:
  assumes "mic_required s \<and> \<not> mic_sent s" and "context_list s = (m, c, t) # rest"
    and "d = pack_mech_type_list env (mech_list s)"
    and "c1 = c\<lparr>calls := calls c @ [Sign d]\<rparr>"
    and "c2 = c\<lparr>calls := calls c @ [Sign d, ResetCrypto True]\<rparr>"
  shows "mic_outgoing env s =
     (case sign_result env c d of
        Inl msg \<Rightarrow> (Inl (External msg), s\<lparr>context_list := (m, c1, t) # rest\<rparr>)
      | Inr out_mic \<Rightarrow>
          (case reset_result env c1 True of
             Some msg \<Rightarrow> (Inl (External msg), s\<lparr>context_list := (m, c2, t) # rest\<rparr>)
           | None \<Rightarrow>
               (Inr (Some out_mic), s\<lparr>context_list := (m, c2, t) # rest, mic_sent := True\<rparr>)))"
proof (cases "sign_result env c d")
  case (Inl msg)
  with assms show ?thesis
    by (simp add: mic_outgoing_def sign_active raised_def)
next
  case (Inr out_mic)
  show ?thesis
  proof (cases "reset_result env c1 True")
    case (Some msg)
    with Inr assms show ?thesis
      by (simp add: mic_outgoing_def sign_active reset_updated raised_opt_def raised_def)
  next
    case None
    with Inr assms show ?thesis
      by (simp add: mic_outgoing_def sign_active reset_updated raised_opt_def raised_def)
  qed
qed

lemma mic_incoming_flags:
  assumes "mic_incoming env s in_mic = (r, s1)"
  shows "mech_sent s1 = mech_sent s \<and> init_sent s1 = init_sent s \<and> mech_list s1 = mech_list s
       \<and> usage s1 = usage s \<and> mech s1 = mech s \<and> mic_sent s1 = mic_sent s
       \<and> (complete s \<longrightarrow> complete s1) \<and> (mic_recv s \<longrightarrow> mic_recv s1)
       \<and> (mic_required s \<longrightarrow> mic_required s1)
       \<and> (complete s1 \<and> \<not> complete s \<longrightarrow> mic_sent s1 \<and> mic_recv s1)
       \<and> (\<not> truthy in_mic \<longrightarrow> s1 = s)"
proof (cases "truthy in_mic")
  case False
  with mic_incoming_skip [OF False, of env s] assms show ?thesis by simp
next
  case True
  show ?thesis
  proof (cases "context_list s")
    case Nil
    with mic_incoming_no_context [OF True Nil, of env] assms True show ?thesis by simp
  next
    case (Cons a rest)
    obtain m c t where "a = (m, c, t)" by (cases a)
    with Cons have cl: "context_list s = (m, c, t) # rest" by simp
    from mic_incoming_active [OF True cl refl refl refl, of env] assms True
    show ?thesis
      by (auto split: option.splits)
  qed
qed

lemma mic_outgoing_flags:
  assumes "mic_outgoing env s = (r, s1)"
  shows "mech_sent s1 = mech_sent s \<and> init_sent s1 = init_sent s \<and> mech_list s1 = mech_list s
       \<and> usage s1 = usage s \<and> mech s1 = mech s \<and> mic_recv s1 = mic_recv s
       \<and> mic_required s1 = mic_required s \<and> complete s1 = complete s
       \<and> (mic_sent s \<longrightarrow> mic_sent s1)
       \<and> ((\<exists>out. r = Inr out) \<longrightarrow> (mic_required s1 \<longrightarrow> mic_sent s1))
       \<and> (\<forall>out. r = Inr out \<longrightarrow> (out \<noteq> None) = (mic_required s \<and> \<not> mic_sent s))"
proof (cases "mic_required s \<and> \<not> mic_sent s")
  case False
  with mic_outgoing_skip [OF False, of env] assms show ?thesis by auto
next
  case True
  show ?thesis
  proof (cases "context_list s")
    case Nil
    with mic_outgoing_no_context [OF True Nil, of env] assms True show ?thesis by simp
  next
    case (Cons a rest)
    obtain m c t where "a = (m, c, t)" by (cases a)
    with Cons have cl: "context_list s = (m, c, t) # rest" by simp
    from mic_outgoing_active [OF True cl refl refl refl, of env] assms True
    show ?thesis
      by (auto split: option.splits sum.splits)
  qed
qed

lemma mic_effect:
  assumes "step_spnego_mic env s in_mic = (r, s3)"
  shows "mech_sent s3 = mech_sent s \<and> init_sent s3 = init_sent s \<and> mech_list s3 = mech_list s
       \<and> usage s3 = usage s \<and> mech s3 = mech s
       \<and> (complete s \<longrightarrow> complete s3)
       \<and> (complete s3 \<and> \<not> complete s \<longrightarrow> mic_sent s3 \<and> mic_recv s3 \<and> truthy in_mic \<and> mic_sent s)
       \<and> ((\<exists>out. r = Inr out) \<longrightarrow> (mic_required s3 \<longrightarrow> mic_sent s3))"
proof -
  obtain r1 s1 where inc: "mic_incoming env s in_mic = (r1, s1)" by force
  note f1 = mic_incoming_flags [OF inc]
  show ?thesis
  proof (cases r1)
    case (Inl e)
    with inc assms have "r = Inl e" "s3 = s1" by (simp_all add: step_spnego_mic_def)
    with f1 show ?thesis by auto
  next
    case (Inr u)
    with inc assms have out: "mic_outgoing env s1 = (r, s3)" by (simp add: step_spnego_mic_def)
    note f2 = mic_outgoing_flags [OF out]
    from f1 f2 show ?thesis by auto
  qed
qed

text \<open>
  C5. What the MIC phase calls on the active backend, for every outcome. When a
  \<open>mechListMIC\<close> came in, \<open>verify\<close> is called; if it raises, nothing more is called and the
  phase raises; if it returns, the reset of the incoming counter (\<open>outgoing=False\<close>) is the
  very next call, and the phase goes on only when that returns too. When a \<open>mechListMIC\<close>
  is due and none was sent, \<open>sign\<close> is called; if it raises, nothing more is called; if it
  returns, the reset of the outgoing counter is the very next call, and the phase returns
  the signature only when that returns too. No other call is made, so a reset is made
  exactly behind each \<open>verify\<close> or \<open>sign\<close> that returned. With no candidate at all the
  phase raises before any call, or returns nothing when there is nothing to do.
\<close>

theorem mic_resets_follow_verify_and_sign:
  assumes run: "step_spnego_mic env s in_mic = (r, s')"
  defines "d \<equiv> pack_mech_type_list env (mech_list s)"
  defines "due \<equiv> (mic_required s \<or> truthy in_mic) \<and> \<not> mic_sent s"
  shows
   "(context_list s = [] \<longrightarrow>
        s' = s \<and> r = (if truthy in_mic \<or> due then Inl AttributeError else Inr None))
  \<and> (\<forall>m c t rest. context_list s = (m, c, t) # rest \<longrightarrow>
       (let c1 = c\<lparr>calls := calls c @ [Verify d (the in_mic)]\<rparr>;
            c2 = (if truthy in_mic
                  then c\<lparr>calls := calls c @ [Verify d (the in_mic), ResetCrypto False]\<rparr> else c);
            c3 = c2\<lparr>calls := calls c2 @ [Sign d]\<rparr>
        in if truthy in_mic \<and> verify_result env c d (the in_mic) \<noteq> None
           then active_calls s' = calls c @ [Verify d (the in_mic)]
                \<and> r = Inl (External (the (verify_result env c d (the in_mic))))
           else if truthy in_mic \<and> reset_result env c1 False \<noteq> None
           then active_calls s' = calls c @ [Verify d (the in_mic), ResetCrypto False]
                \<and> r = Inl (External (the (reset_result env c1 False)))
           else if \<not> due
           then active_calls s' = calls c2 \<and> r = Inr None
           else (case sign_result env c2 d of
                   Inl msg \<Rightarrow> active_calls s' = calls c2 @ [Sign d] \<and> r = Inl (External msg)
                 | Inr out_mic \<Rightarrow>
                     active_calls s' = calls c2 @ [Sign d, ResetCrypto True]
                     \<and> r = (case reset_result env c3 True of
                              Some msg \<Rightarrow> Inl (External msg)
                            | None \<Rightarrow> Inr (Some out_mic)))))"
proof -
  have first: "s' = s \<and> r = (if truthy in_mic \<or> due then Inl AttributeError else Inr None)"
    if nil: "context_list s = []"
  proof (cases "truthy in_mic")
    case True
    from mic_incoming_no_context [OF True nil, of env] run True show ?thesis
      by (simp add: step_spnego_mic_def)
  next
    case False
    from mic_incoming_skip [OF False, of env s] run
    have out: "mic_outgoing env s = (r, s')" by (simp add: step_spnego_mic_def)
    show ?thesis
    proof (cases "mic_required s \<and> \<not> mic_sent s")
      case True
      from mic_outgoing_no_context [OF True nil, of env] out True False show ?thesis
        by (simp add: due_def)
    next
      case nd: False
      from mic_outgoing_skip [OF nd, of env] out nd False show ?thesis
        by (auto simp: due_def)
    qed
  qed
  have second: "let c1 = c\<lparr>calls := calls c @ [Verify d (the in_mic)]\<rparr>;
            c2 = (if truthy in_mic
                  then c\<lparr>calls := calls c @ [Verify d (the in_mic), ResetCrypto False]\<rparr> else c);
            c3 = c2\<lparr>calls := calls c2 @ [Sign d]\<rparr>
        in if truthy in_mic \<and> verify_result env c d (the in_mic) \<noteq> None
           then active_calls s' = calls c @ [Verify d (the in_mic)]
                \<and> r = Inl (External (the (verify_result env c d (the in_mic))))
           else if truthy in_mic \<and> reset_result env c1 False \<noteq> None
           then active_calls s' = calls c @ [Verify d (the in_mic), ResetCrypto False]
                \<and> r = Inl (External (the (reset_result env c1 False)))
           else if \<not> due
           then active_calls s' = calls c2 \<and> r = Inr None
           else (case sign_result env c2 d of
                   Inl msg \<Rightarrow> active_calls s' = calls c2 @ [Sign d] \<and> r = Inl (External msg)
                 | Inr out_mic \<Rightarrow>
                     active_calls s' = calls c2 @ [Sign d, ResetCrypto True]
                     \<and> r = (case reset_result env c3 True of
                              Some msg \<Rightarrow> Inl (External msg)
                            | None \<Rightarrow> Inr (Some out_mic)))"
    if cl: "context_list s = (m, c, t) # rest" for m c t rest
  proof -
  let ?mic = "the in_mic"
  let ?c1 = "c\<lparr>calls := calls c @ [Verify d ?mic]\<rparr>"
  let ?cv = "c\<lparr>calls := calls c @ [Verify d ?mic, ResetCrypto False]\<rparr>"
  let ?c2 = "if truthy in_mic then ?cv else c"
  let ?c3 = "?c2\<lparr>calls := calls ?c2 @ [Sign d]\<rparr>"
  let ?goal = "if truthy in_mic \<and> verify_result env c d ?mic \<noteq> None
           then active_calls s' = calls c @ [Verify d ?mic]
                \<and> r = Inl (External (the (verify_result env c d ?mic)))
           else if truthy in_mic \<and> reset_result env ?c1 False \<noteq> None
           then active_calls s' = calls c @ [Verify d ?mic, ResetCrypto False]
                \<and> r = Inl (External (the (reset_result env ?c1 False)))
           else if \<not> due
           then active_calls s' = calls ?c2 \<and> r = Inr None
           else (case sign_result env ?c2 d of
                   Inl msg \<Rightarrow> active_calls s' = calls ?c2 @ [Sign d] \<and> r = Inl (External msg)
                 | Inr out_mic \<Rightarrow>
                     active_calls s' = calls ?c2 @ [Sign d, ResetCrypto True]
                     \<and> r = (case reset_result env ?c3 True of
                              Some msg \<Rightarrow> Inl (External msg)
                            | None \<Rightarrow> Inr (Some out_mic)))"
  \<comment> \<open>the state the outgoing part starts from, when the incoming part returned\<close>
  have outgoing: "?goal"
    if out: "mic_outgoing env s1 = (r, s')"
      and cl1: "context_list s1 = (m, ?c2, t) # rest"
      and ml: "mech_list s1 = mech_list s"
      and due1: "(mic_required s1 \<and> \<not> mic_sent s1) = due"
      and ok: "truthy in_mic \<longrightarrow> verify_result env c d ?mic = None \<and> reset_result env ?c1 False = None"
    for s1
  proof (cases due)
    case False
    with due1 have "\<not> (mic_required s1 \<and> \<not> mic_sent s1)" by simp
    from mic_outgoing_skip [OF this, of env] out cl1 have
      "r = Inr None" "active_calls s' = calls ?c2"
      by (auto simp: active_calls_def the_context_def)
    with False ok show ?thesis by auto
  next
    case True
    with due1 have t1: "mic_required s1 \<and> \<not> mic_sent s1" by simp
    note act = mic_outgoing_active [OF t1 cl1 refl refl refl, of env]
    have dd: "pack_mech_type_list env (mech_list s1) = d" by (simp add: ml d_def)
    show ?thesis
    proof (cases "sign_result env ?c2 d")
      case (Inl msg)
      with act out dd have "r = Inl (External msg)" "active_calls s' = calls ?c2 @ [Sign d]"
        by (auto simp: active_calls_def the_context_def)
      with True ok Inl show ?thesis by auto
    next
      case (Inr out_mic)
      show ?thesis
      proof (cases "reset_result env ?c3 True")
        case None
        with Inr act out dd have "r = Inr (Some out_mic)"
          "active_calls s' = calls ?c2 @ [Sign d, ResetCrypto True]"
          by (auto simp: active_calls_def the_context_def)
        with True ok Inr None show ?thesis by auto
      next
        case (Some msg)
        with Inr act out dd have "r = Inl (External msg)"
          "active_calls s' = calls ?c2 @ [Sign d, ResetCrypto True]"
          by (auto simp: active_calls_def the_context_def)
        with True ok Inr Some show ?thesis by auto
      qed
    qed
  qed
  have "?goal"
  proof (cases "truthy in_mic")
    case False
    from mic_incoming_skip [OF False, of env s] run
    have out: "mic_outgoing env s = (r, s')" by (simp add: step_spnego_mic_def)
    from False cl have cl1: "context_list s = (m, ?c2, t) # rest" by simp
    from False have due1: "(mic_required s \<and> \<not> mic_sent s) = due" by (simp add: due_def)
    from outgoing [OF out cl1 refl due1] False show ?thesis by simp
  next
    case True
    note act = mic_incoming_active [OF True cl refl refl refl, of env]
    show ?thesis
    proof (cases "verify_result env c d ?mic")
      case (Some msg)
      with act run have "r = Inl (External msg)" "active_calls s' = calls c @ [Verify d ?mic]"
        by (auto simp: step_spnego_mic_def d_def active_calls_def the_context_def)
      with True Some show ?thesis by simp
    next
      case None
      show ?thesis
      proof (cases "reset_result env ?c1 False")
        case (Some msg)
        with None act run have "r = Inl (External msg)"
          "active_calls s' = calls c @ [Verify d ?mic, ResetCrypto False]"
          by (auto simp: step_spnego_mic_def d_def active_calls_def the_context_def)
        with True None Some show ?thesis by simp
      next
        case n2: None
        let ?s1 = "s\<lparr>context_list := (m, ?cv, t) # rest, mic_required := True,
                     mic_recv := True, complete := mic_sent s \<or> complete s\<rparr>"
        from None n2 act have inc: "mic_incoming env s in_mic = (Inr (), ?s1)"
          by (simp add: d_def)
        with run have out: "mic_outgoing env ?s1 = (r, s')" by (simp add: step_spnego_mic_def)
        from True have cl1: "context_list ?s1 = (m, ?c2, t) # rest" by simp
        from True have due1: "(mic_required ?s1 \<and> \<not> mic_sent ?s1) = due" by (simp add: due_def)
        have ml: "mech_list ?s1 = mech_list s" by simp
        from None n2 have ok: "truthy in_mic \<longrightarrow>
            verify_result env c d ?mic = None \<and> reset_result env ?c1 False = None" by simp
        from outgoing [OF out cl1 ml due1 ok] show ?thesis .
      qed
    qed
  qed
  then show ?thesis by (simp only: Let_def)
  qed
  from first second show ?thesis by blast
qed


theorem mic_resets_follow_verify_and_sign_witness:
  "fst (step_spnego_mic (lab 2) offered (Some ''MIC:1.3.6.1.4.1.311.2.2.10''))
     = Inr (Some ''MIC:1.3.6.1.4.1.311.2.2.10'')
   \<and> active_calls (snd (step_spnego_mic (lab 2) offered (Some ''MIC:1.3.6.1.4.1.311.2.2.10'')))
     = [Step None,
        Verify ''1.3.6.1.4.1.311.2.2.10'' ''MIC:1.3.6.1.4.1.311.2.2.10'', ResetCrypto False,
        Sign ''1.3.6.1.4.1.311.2.2.10'', ResetCrypto True]
   \<and> fst (step_spnego_mic (lab 2) offered (Some ''forged'')) = Inl (External ''bad signature'')
   \<and> active_calls (snd (step_spnego_mic (lab 2) offered (Some ''forged'')))
     = [Step None, Verify ''1.3.6.1.4.1.311.2.2.10'' ''forged'']"
proof -
  let ?mic = "''MIC:1.3.6.1.4.1.311.2.2.10''"
  let ?d = "''1.3.6.1.4.1.311.2.2.10''"
  let ?c = "\<lparr>made_by = NTLM, calls = [Step None]\<rparr>"
  obtain r s' where e: "step_spnego_mic (lab 2) offered (Some ?mic) = (r, s')" by force
  obtain r2 s2 where e2: "step_spnego_mic (lab 2) offered (Some ''forged'') = (r2, s2)" by force
  have cl: "context_list offered = (ntlm, ?c, None) # []" by (simp add: offered_state)
  have t: "truthy (Some ?mic)" "truthy (Some ''forged'')" by code_simp+
  have n: "\<not> mic_sent offered" by (simp add: offered_state)
  have d: "pack_mech_type_list (lab 2) (mech_list offered) = ?d" by code_simp
  have v: "verify_result (lab 2) ?c ?d ?mic = None"
    "verify_result (lab 2) ?c ?d ''forged'' = Some ''bad signature''"
    by code_simp+
  have rs: "\<And>c outgoing. reset_result (lab 2) c outgoing = None" by (simp add: lab_def)
  have sg: "\<And>c. sign_result (lab 2) c ?d = Inr ?mic" by (simp add: lab_def)
  from mic_resets_follow_verify_and_sign [OF e, THEN conjunct2, rule_format, OF cl]
       t n d v rs sg
  have a: "active_calls s' = [Step None, Verify ?d ?mic, ResetCrypto False, Sign ?d, ResetCrypto True]
           \<and> r = Inr (Some ?mic)"
    by (simp add: Let_def)
  from mic_resets_follow_verify_and_sign [OF e2, THEN conjunct2, rule_format, OF cl]
       t n d v rs sg
  have b: "active_calls s2 = [Step None, Verify ?d ''forged''] \<and> r2 = Inl (External ''bad signature'')"
    by (simp add: Let_def)
  from a b e e2 show ?thesis by simp
qed


section \<open>The output phase\<close>

lemma output_first:
  assumes "\<not> init_sent s"
  shows "step_spnego_output env s out_token out_mic =
     (Inr (Some ((if usage s = ''initiate'' then pack_neg_token_init else pack_neg_token_init2)
                   (mech_list s) out_token out_mic)),
      s\<lparr>init_sent := True\<rparr>)"
  using assms by (simp add: step_spnego_output_def)

lemma output_done:
  assumes "init_sent s" and "complete s"
  shows "step_spnego_output env s out_token out_mic = (Inr None, s)"
  using assms by (simp add: step_spnego_output_def)

lemma output_no_context:
  assumes "init_sent s" and "\<not> complete s" and "context_list s = []"
  shows "step_spnego_output env s out_token out_mic = (Inl AttributeError, s\<lparr>mech_sent := True\<rparr>)"
  using assms by (cases "mech_sent s") (simp_all add: step_spnego_output_def the_context_def)

lemma output_resp:
  assumes "init_sent s" and "\<not> complete s" and "context_list s = (m, c, t) # rest"
  shows "step_spnego_output env s out_token out_mic =
     (Inr (Some (pack_neg_token_resp
                   (if context_complete env c
                    then (if mic_sent s \<and> \<not> mic_recv s then request_mic else accept_complete)
                    else accept_incomplete)
                   out_token (if mech_sent s then None else mech s) out_mic)),
      s\<lparr>mech_sent := True,
        complete := context_complete env c \<and> \<not> (mic_sent s \<and> \<not> mic_recv s)\<rparr>)"
  using assms
  by (cases "mech_sent s") (simp_all add: step_spnego_output_def the_context_def Let_def)

lemma output_effect:
  assumes "step_spnego_output env s out_token out_mic = (r, s4)"
  shows "mic_sent s4 = mic_sent s \<and> mic_recv s4 = mic_recv s \<and> mic_required s4 = mic_required s
       \<and> usage s4 = usage s \<and> mech s4 = mech s \<and> context_list s4 = context_list s
       \<and> (complete s \<longrightarrow> complete s4) \<and> (mech_sent s \<longrightarrow> mech_sent s4)
       \<and> (complete s4 \<and> \<not> complete s \<longrightarrow>
             (\<exists>c. the_context s = Some c \<and> context_complete env c) \<and> (mic_sent s \<longrightarrow> mic_recv s))
       \<and> (carries_supported_mech r \<longrightarrow> \<not> mech_sent s \<and> mech_sent s4)"
proof (cases "init_sent s")
  case False
  from output_first [OF False, of env out_token out_mic] assms show ?thesis
    by (auto split: if_splits)
next
  case True
  show ?thesis
  proof (cases "complete s")
    case c: True
    from output_done [OF True c, of env out_token out_mic] assms c show ?thesis by auto
  next
    case nc: False
    show ?thesis
    proof (cases "context_list s")
      case Nil
      from output_no_context [OF True nc Nil, of env out_token out_mic] assms nc show ?thesis
        by auto
    next
      case (Cons a rest)
      obtain m c t where "a = (m, c, t)" by (cases a)
      with Cons have cl: "context_list s = (m, c, t) # rest" by simp
      from output_resp [OF True nc cl, of env out_token out_mic] assms nc cl show ?thesis
        by (auto simp: the_context_def)
    qed
  qed
qed




section \<open>A whole step\<close>

lemma step_phases:
  assumes "step env s in_token = (r, s')"
  obtains
    (input_raised) e where
      "step_spnego_input env s in_token = (Inl e, s')" "r = Inl e"
  | (token_raised) a b s1 e where
      "step_spnego_input env s in_token = (Inr (a, b), s1)"
      "step_spnego_token env s1 a = (Inl e, s')" "r = Inl e"
  | (mic_raised) a b s1 t s2 e where
      "step_spnego_input env s in_token = (Inr (a, b), s1)"
      "step_spnego_token env s1 a = (Inr t, s2)"
      "step_spnego_mic env s2 b = (Inl e, s')" "r = Inl e"
  | (output_raised) a b s1 t s2 m s3 e where
      "step_spnego_input env s in_token = (Inr (a, b), s1)"
      "step_spnego_token env s1 a = (Inr t, s2)"
      "step_spnego_mic env s2 b = (Inr m, s3)"
      "step_spnego_output env s3 t m = (Inl e, s')" "r = Inl e"
  | (returned) a b s1 t s2 m s3 out s4 where
      "step_spnego_input env s in_token = (Inr (a, b), s1)"
      "step_spnego_token env s1 a = (Inr t, s2)"
      "step_spnego_mic env s2 b = (Inr m, s3)"
      "step_spnego_output env s3 t m = (Inr out, s4)"
      "if complete s4
       then (case context_list s4 of
               [] \<Rightarrow> r = Inl IndexError \<and> s' = s4
             | first # rest \<Rightarrow> r = Inr out \<and> s' = s4\<lparr>context_list := [first]\<rparr>)
       else r = Inr out \<and> s' = s4"
proof -
  obtain r1 s1 where p1: "step_spnego_input env s in_token = (r1, s1)" by force
  show ?thesis
  proof (cases r1)
    case (Inl e)
    with p1 assms have "r = Inl e" "s' = s1" by (simp_all add: step_def)
    with p1 Inl input_raised show ?thesis by simp
  next
    case (Inr ab)
    obtain a b where ab: "ab = (a, b)" by (cases ab)
    obtain r2 s2 where p2: "step_spnego_token env s1 a = (r2, s2)" by force
    show ?thesis
    proof (cases r2)
      case (Inl e)
      with p1 Inr ab p2 assms have "r = Inl e" "s' = s2" by (simp_all add: step_def)
      with p1 Inr ab p2 Inl token_raised show ?thesis by simp
    next
      case r2: (Inr t)
      obtain r3 s3 where p3: "step_spnego_mic env s2 b = (r3, s3)" by force
      show ?thesis
      proof (cases r3)
        case (Inl e)
        with p1 Inr ab p2 r2 p3 assms have "r = Inl e" "s' = s3" by (simp_all add: step_def)
        with p1 Inr ab p2 r2 p3 Inl mic_raised show ?thesis by simp
      next
        case r3: (Inr m)
        obtain r4 s4 where p4: "step_spnego_output env s3 t m = (r4, s4)" by force
        show ?thesis
        proof (cases r4)
          case (Inl e)
          with p1 Inr ab p2 r2 p3 r3 p4 assms have "r = Inl e" "s' = s4"
            by (simp_all add: step_def)
          with p1 Inr ab p2 r2 p3 r3 p4 Inl output_raised show ?thesis by simp
        next
          case r4: (Inr out)
          from p1 Inr ab p2 r2 p3 r3 p4 r4 assms
          have "if complete s4
                then (case context_list s4 of
                        [] \<Rightarrow> r = Inl IndexError \<and> s' = s4
                      | first # rest \<Rightarrow> r = Inr out \<and> s' = s4\<lparr>context_list := [first]\<rparr>)
                else r = Inr out \<and> s' = s4"
            by (auto simp: step_def split: list.splits)
          with p1 Inr ab p2 r2 p3 r3 p4 r4 returned show ?thesis by simp
        qed
      qed
    qed
  qed
qed

lemma step_effect:
  assumes "step env s in_token = (r, s')"
  shows "(complete s \<longrightarrow> complete s') \<and> (mech_sent s \<longrightarrow> mech_sent s')
       \<and> (mech_sent s \<longrightarrow> \<not> carries_supported_mech r)
       \<and> (carries_supported_mech r \<longrightarrow> mech_sent s')
       \<and> usage s' = usage s \<and> mech s' = mech s"
  using assms
proof (cases rule: step_phases)
  case (input_raised e)
  from input_effect [OF input_raised(1)] input_raised(2) show ?thesis by simp
next
  case (token_raised a b s1 e)
  from input_effect [OF token_raised(1)] token_effect [OF token_raised(2)] token_raised(3)
  show ?thesis by simp
next
  case (mic_raised a b s1 t s2 e)
  from input_effect [OF mic_raised(1)] token_effect [OF mic_raised(2)]
       mic_effect [OF mic_raised(3)] mic_raised(4)
  show ?thesis by simp
next
  case (output_raised a b s1 t s2 m s3 e)
  from input_effect [OF output_raised(1)] token_effect [OF output_raised(2)]
       mic_effect [OF output_raised(3)] output_effect [OF output_raised(4)] output_raised(5)
  show ?thesis by simp
next
  case (returned a b s1 t s2 m s3 out s4)
  note e1 = input_effect [OF returned(1)] and e2 = token_effect [OF returned(2)]
    and e3 = mic_effect [OF returned(3)] and e4 = output_effect [OF returned(4)]
  from e1 e2 e3 e4 have
    k: "(complete s \<longrightarrow> complete s4)" "(mech_sent s \<longrightarrow> mech_sent s4)"
       "(mech_sent s \<longrightarrow> \<not> carries_supported_mech (Inr out))"
       "(carries_supported_mech (Inr out) \<longrightarrow> mech_sent s4)"
       "usage s4 = usage s" "mech s4 = mech s"
    by auto
  show ?thesis
  proof (cases "complete s4")
    case False
    with returned(5) k show ?thesis by simp
  next
    case True
    show ?thesis
    proof (cases "context_list s4")
      case Nil
      with True returned(5) k show ?thesis by simp
    next
      case (Cons first rest)
      with True returned(5) k show ?thesis by simp
    qed
  qed
qed


lemma run_effect:
  assumes "run env s in_tokens = (rs, s')"
  shows "(complete s \<longrightarrow> complete s') \<and> (mech_sent s \<longrightarrow> mech_sent s')
       \<and> (mech_sent s \<longrightarrow> filter carries_supported_mech rs = [])
       \<and> length (filter carries_supported_mech rs) \<le> 1"
  using assms
proof (induction in_tokens arbitrary: s rs s')
  case Nil
  then show ?case by simp
next
  case (Cons t ts)
  obtain r s1 where st: "step env s t = (r, s1)" by force
  obtain rs1 s2 where ru: "run env s1 ts = (rs1, s2)" by force
  from Cons.prems st ru have eq: "rs = r # rs1" "s' = s2" by simp_all
  note e = step_effect [OF st] and ih = Cons.IH [OF ru]
  show ?case
  proof (cases "carries_supported_mech r")
    case True
    with e ih eq show ?thesis by auto
  next
    case False
    with e ih eq show ?thesis by auto
  qed
qed


section \<open>Completion is never taken back\<close>

text \<open>
  C8. Once \<open>complete\<close> is set, it is set after every further \<open>step\<close> (whether it returns
  or raises), after every run of steps, and after \<open>sign\<close> and \<open>verify\<close>.
\<close>

theorem complete_never_reverts:
  assumes "complete s"
  shows "complete (snd (step env s in_token)) \<and> complete (snd (run env s in_tokens))
       \<and> complete (snd (sign env s d)) \<and> complete (snd (verify env s d mic))"
proof -
  obtain r s1 where st: "step env s in_token = (r, s1)" by force
  obtain rs s2 where ru: "run env s in_tokens = (rs, s2)" by force
  obtain r3 s3 where si: "on_context s (\<lambda>c. ctx_sign env c d) = (r3, s3)" by force
  obtain r4 s4 where ve: "on_context s (\<lambda>c. ctx_verify env c d mic) = (r4, s4)" by force
  from step_effect [OF st] run_effect [OF ru] on_context_keeps [OF si] on_context_keeps [OF ve]
       assms st ru si ve
  show ?thesis by (simp add: sign_def verify_def)
qed

theorem complete_never_reverts_witness:
  "complete accepted_early
   \<and> complete (snd (step (lab 3) accepted_early (Some ''continue'')))
   \<and> complete (snd (run (lab 3) accepted_early [Some ''continue'', Some ''rejected'', None]))
   \<and> complete (snd (sign (lab 3) accepted_early ''data''))
   \<and> complete (snd (verify (lab 3) accepted_early ''data'' ''bad''))"
proof -
  have c: "complete accepted_early" by code_simp
  from complete_never_reverts [OF c, of "lab 3" "Some ''continue''"
         "[Some ''continue'', Some ''rejected'', None]" "''data''" "''bad''"] c
  show ?thesis by simp
qed


section \<open>The supported mechanism is sent once\<close>




section \<open>How a context becomes complete\<close>









section \<open>Who asks for the MIC\<close>

text \<open>
  C2: what the source does on the initiator side. The initiator of \<open>offered\<close> receives the
  acceptor's \<open>accept_incomplete\<close> with the NTLM challenge; its backend finishes on that
  round and asks for the \<open>mechListMIC\<close>, which is signed; the \<open>NegTokenResp\<close> the initiator
  packs then says \<open>request_mic\<close>. The same state is reached by an acceptor whose active
  mechanism is the initiator's first choice.
\<close>

theorem initiator_emits_request_mic:
  "usage offered = ''initiate''
   \<and> fst (step (lab 2) offered (Some ''challenge''))
       = Inr (Some (pack_neg_token_resp request_mic (Some ''AUTHENTICATE'') None
                      (Some ''MIC:1.3.6.1.4.1.311.2.2.10'')))
   \<and> usage answered = ''accept''
   \<and> mech_list answered = [mech_value ntlm]
   \<and> map fst (context_list answered) = [ntlm]
   \<and> fst (run (lab 3) answered [Some ''continue'', Some ''continue''])
       = [Inr (Some (pack_neg_token_resp accept_incomplete (Some ''AUTHENTICATE'') None None)),
          Inr (Some (pack_neg_token_resp request_mic (Some ''AUTHENTICATE'') None
                      (Some ''MIC:1.3.6.1.4.1.311.2.2.10'')))]"
  by code_simp

end
